theory Spec2Isabelle
  imports Main "HOL-Library.Char_ord" "HOL-Library.List_Lexorder"
begin

section \<open>The RIPE loader of IPASN-History (bin/ripe_loader.py)\<close>

text \<open>
  A shallow embedding of \<^verbatim>\<open>routeview\<close> and of the class \<^verbatim>\<open>RipeLoader\<close>.
  Python strings are \<^typ>\<open>string\<close>. The AS-path strings and prefixes come out of the
  bgpdump decoder, which prints them in ASCII, so a character is read as an ASCII
  character: \<^verbatim>\<open>str.isnumeric\<close> is then "non-empty and decimal digits only", and
  \<^verbatim>\<open>str.split()\<close> cuts at the ASCII whitespace characters. Strings are compared, as
  in Python, character by character (the lexicographic order of lists).
\<close>

subsection \<open>Python string operations\<close>

definition isdigit :: "char \<Rightarrow> bool" where
  "isdigit c = (c \<in> set ''0123456789'')"

text \<open>\<^verbatim>\<open>s.isnumeric()\<close>: false on the empty string.\<close>

definition isnumeric :: "string \<Rightarrow> bool" where
  "isnumeric s = (s \<noteq> [] \<and> list_all isdigit s)"

definition isspace :: "char \<Rightarrow> bool" where
  "isspace c = (c \<in> set [CHR 0x09, CHR 0x0A, CHR 0x0B, CHR 0x0C, CHR 0x0D,
                           CHR 0x1C, CHR 0x1D, CHR 0x1E, CHR 0x1F, CHR 0x20])"

text \<open>
  \<^verbatim>\<open>s.split()\<close>: the maximal runs of non-whitespace characters, in order. The first
  argument is the token being read, reversed.
\<close>

fun split_from :: "string \<Rightarrow> string \<Rightarrow> string list" where
  "split_from cur [] = (if cur = [] then [] else [rev cur])"
| "split_from cur (c # cs) =
     (if isspace c then (if cur = [] then split_from [] cs else rev cur # split_from [] cs)
      else split_from (c # cur) cs)"

definition split :: "string \<Rightarrow> string list" where
  "split s = split_from [] s"

text \<open>\<^verbatim>\<open>s[1:-1]\<close>: empty when \<open>s\<close> has fewer than three characters.\<close>

definition strip1 :: "string \<Rightarrow> string" where
  "strip1 s = butlast (tl s)"

text \<open>\<^verbatim>\<open>str(n)\<close> of an integer, as an f-string and the Redis client print it.\<close>

definition digit_char :: "nat \<Rightarrow> char" where
  "digit_char d = ''0123456789'' ! d"

fun str_nat :: "nat \<Rightarrow> string" where
  "str_nat n = (if n < 10 then [digit_char n] else str_nat (n div 10) @ [digit_char (n mod 10)])"

declare str_nat.simps [simp del]

definition str_int :: "int \<Rightarrow> string" where
  "str_int i = (if i < 0 then CHR ''-'' # str_nat (nat (- i)) else str_nat (nat i))"

subsection \<open>Errors\<close>

text \<open>
  The exceptions the loader can raise. \<open>LibraryPathInvalid\<close> is the
  \<^verbatim>\<open>Exception\<close> of line 33, \<open>DecodeError\<close> an exception out of the bgpdump
  iterator, \<open>IndexError\<close> the one of \<^verbatim>\<open>all_paths[-1]\<close>, \<open>UnboundLocalError\<close> the
  read of \<^verbatim>\<open>best_as\<close> before any assignment, \<open>ValueError\<close> the one of
  \<^verbatim>\<open>ip_network\<close>, \<open>ResponseError\<close> the one of the Redis pipeline.
\<close>

datatype error =
  LibraryPathInvalid | DecodeError | IndexError | UnboundLocalError | ValueError | ResponseError

subsection \<open>The dump file and routeview\<close>

text \<open>
  What routeview reads of a \<^verbatim>\<open>TableDumpV2\<close> body: the prefix, its length, the address
  family tag and, for each route of \<^verbatim>\<open>routeEntries\<close>, the string
  \<^verbatim>\<open>route.attr.asPath\<close>. Of a \<^verbatim>\<open>TableDumpV1\<close> body it reads nothing.
\<close>

record tdv2 =
  prefix :: string
  prefixLength :: nat
  afi :: nat
  routeEntries :: "string list"

datatype body = TableDumpV1 | TableDumpV2 tdv2

text \<open>What the iteration over the open dump delivers: an entry, or an exception.\<close>

datatype item = Entry body | DecoderRaises

definition AF_INET :: nat where
  "AF_INET = 2"

text \<open>
  The local variables of the loop: the two lists of \<^verbatim>\<open>routes\<close> and \<^verbatim>\<open>best_as\<close>,
  which is unbound (\<open>None\<close>) until its first assignment and is never reset.
\<close>

record rv_state =
  routes_v4 :: "(string \<times> string) list"
  routes_v6 :: "(string \<times> string) list"
  best_as :: "string option"

text \<open>
  Lines 53 to 59: the scan of the reversed last path. The second argument is
  \<^verbatim>\<open>best_as\<close> before the scan; it is the result when no token qualifies.
\<close>

fun cleanup :: "string list \<Rightarrow> string option \<Rightarrow> string option" where
  "cleanup [] b = b"
| "cleanup (asn # rest) b =
     (if isnumeric asn then Some asn
      else if isnumeric (strip1 asn) then Some (strip1 asn)
      else cleanup rest b)"

text \<open>Lines 43 to 64: the body of the loop for one entry.\<close>

definition routeview_entry :: "rv_state \<Rightarrow> body \<Rightarrow> error + rv_state" where
  "routeview_entry st b =
     (case b of
        TableDumpV1 \<Rightarrow> Inr st
      | TableDumpV2 e \<Rightarrow>
          (let pfx = prefix e @ ''/'' @ str_nat (prefixLength e);
               all_paths = map split (routeEntries e)
           in if all_paths = [] then Inl IndexError
              else
                (case cleanup (rev (last all_paths)) (best_as st) of
                   None \<Rightarrow> Inl UnboundLocalError
                 | Some a \<Rightarrow>
                     if afi e = AF_INET
                     then Inr (st\<lparr>routes_v4 := routes_v4 st @ [(pfx, a)], best_as := Some a\<rparr>)
                     else Inr (st\<lparr>routes_v6 := routes_v6 st @ [(pfx, a)], best_as := Some a\<rparr>))))"

fun routeview_loop :: "rv_state \<Rightarrow> item list \<Rightarrow> error + rv_state" where
  "routeview_loop st [] = Inr st"
| "routeview_loop st (DecoderRaises # es) = Inl DecodeError"
| "routeview_loop st (Entry b # es) =
     (case routeview_entry st b of
        Inl err \<Rightarrow> Inl err
      | Inr st' \<Rightarrow> routeview_loop st' es)"

text \<open>
  \<^verbatim>\<open>routeview(bview_file)\<close> as load_all calls it, without a library path: the first
  argument says whether the default path exists, the second is what the decoder delivers
  for the file. The result is the dictionary \<^verbatim>\<open>routes\<close>, in the order of its keys.
\<close>

definition routeview :: "bool \<Rightarrow> item list \<Rightarrow> error + (string \<times> (string \<times> string) list) list" where
  "routeview lib_exists dump =
     (if \<not> lib_exists then Inl LibraryPathInvalid
      else
        (case routeview_loop \<lparr>routes_v4 = [], routes_v6 = [], best_as = None\<rparr> dump of
           Inl err \<Rightarrow> Inl err
         | Inr st \<Rightarrow> Inr [(''v4'', routes_v4 st), (''v6'', routes_v6 st)]))"

subsection \<open>The networks of the ipaddress module\<close>

text \<open>
  \<^verbatim>\<open>ip_network(prefix)\<close> is the strict parser of Python's standard library. The loader
  uses two things of the network it returns: \<^verbatim>\<open>str(network)\<close>, the canonical text,
  and \<^verbatim>\<open>network.num_addresses\<close>, which the library computes from the width of the
  address family (\<^verbatim>\<open>max_prefixlen\<close>, 32 or 128) and the prefix length. The parser
  itself is a parameter of the model (\<open>None\<close> is its \<^verbatim>\<open>ValueError\<close>).
\<close>

record ip_net =
  net_str :: string
  max_prefixlen :: nat
  prefixlen :: nat

definition num_addresses :: "ip_net \<Rightarrow> int" where
  "num_addresses n = 2 ^ (max_prefixlen n - prefixlen n)"

text \<open>The values of \<^verbatim>\<open>ip_network\<close> on the prefixes that the examples below use.\<close>

definition example_ip_network :: "string \<Rightarrow> ip_net option" where
  "example_ip_network s =
     (if s = ''10.0.0.0/24'' then Some \<lparr>net_str = ''10.0.0.0/24'', max_prefixlen = 32, prefixlen = 24\<rparr>
      else if s = ''10.0.1.0/24'' then Some \<lparr>net_str = ''10.0.1.0/24'', max_prefixlen = 32, prefixlen = 24\<rparr>
      else if s = ''2001:db8::/32'' then Some \<lparr>net_str = ''2001:db8::/32'', max_prefixlen = 128, prefixlen = 32\<rparr>
      else None)"

subsection \<open>The aggregate of one address family\<close>

text \<open>
  One value of \<^verbatim>\<open>to_import\<close>: the set under the key of the address family and the
  integer under \<^verbatim>\<open>'ipcount'\<close>. The dictionary keeps its keys in insertion order.
\<close>

record aggr =
  prefixes :: "string set"
  ipcount :: int

definition default_aggr :: aggr where
  "default_aggr = \<lparr>prefixes = {}, ipcount = 0\<rparr>"

text \<open>\<^verbatim>\<open>to_import[asn]\<close> followed by an update in place; a missing key gets the default.\<close>

fun update_entry :: "string \<Rightarrow> (aggr \<Rightarrow> aggr) \<Rightarrow> (string \<times> aggr) list \<Rightarrow> (string \<times> aggr) list" where
  "update_entry k f [] = [(k, f default_aggr)]"
| "update_entry k f ((k', d) # m) =
     (if k = k' then (k', f d) # m else (k', d) # update_entry k f m)"

text \<open>Lines 111 to 114.\<close>

fun import_entries ::
    "(string \<Rightarrow> ip_net option) \<Rightarrow> (string \<times> string) list \<Rightarrow> (string \<times> aggr) list
       \<Rightarrow> error + (string \<times> aggr) list" where
  "import_entries ipn [] to_import = Inr to_import"
| "import_entries ipn ((pfx, asn) # entries) to_import =
     (case ipn pfx of
        None \<Rightarrow> Inl ValueError
      | Some network \<Rightarrow>
          import_entries ipn entries
            (update_entry asn
               (\<lambda>d. d\<lparr>prefixes := insert (net_str network) (prefixes d),
                       ipcount := ipcount d + num_addresses network\<rparr>)
               to_import))"

subsection \<open>The storage database\<close>

text \<open>
  The Redis database, as far as the loader uses it: keys that hold sets (a key that was
  never written holds the empty set) and keys that hold strings. The loader's set keys
  and string keys end differently, so the two kinds are kept apart.
\<close>

record storagedb =
  sets :: "string \<Rightarrow> string set"
  strs :: "string \<Rightarrow> string option"

definition sismember :: "storagedb \<Rightarrow> string \<Rightarrow> string \<Rightarrow> bool" where
  "sismember db k v = (v \<in> sets db k)"

definition redis_get :: "storagedb \<Rightarrow> string \<Rightarrow> string option" where
  "redis_get db k = strs db k"

definition redis_set :: "storagedb \<Rightarrow> string \<Rightarrow> string \<Rightarrow> storagedb" where
  "redis_set db k v = db\<lparr>strs := (strs db)(k \<mapsto> v)\<rparr>"

text \<open>
  A pipeline is the list of the commands queued on it. \<^verbatim>\<open>execute\<close> sends them as one
  transaction: the server refuses an \<^verbatim>\<open>SADD\<close> without members, discards the
  transaction and the client raises; otherwise the commands run in order.
\<close>

datatype command = SADD string "string set" | SET string string

fun apply_command :: "storagedb \<Rightarrow> command \<Rightarrow> storagedb" where
  "apply_command db (SADD k vs) = db\<lparr>sets := (sets db)(k := sets db k \<union> vs)\<rparr>"
| "apply_command db (SET k v) = redis_set db k v"

fun refused :: "command \<Rightarrow> bool" where
  "refused (SADD k vs) = (vs = {})"
| "refused (SET k v) = False"

definition execute :: "command list \<Rightarrow> storagedb \<Rightarrow> error + storagedb" where
  "execute p db = (if list_ex refused p then Inl ResponseError else Inr (foldl apply_command db p))"

subsection \<open>RipeLoader\<close>

definition dates_key :: "string \<Rightarrow> string \<Rightarrow> string" where
  "dates_key kp af = kp @ ''|'' @ af @ ''|dates''"

definition last_key :: "string \<Rightarrow> string \<Rightarrow> string" where
  "last_key kp af = kp @ ''|'' @ af @ ''|last''"

definition asns_key :: "string \<Rightarrow> string \<Rightarrow> string \<Rightarrow> string" where
  "asns_key kp af date = kp @ ''|'' @ af @ ''|'' @ date @ ''|asns''"

definition prefixes_key :: "string \<Rightarrow> string \<Rightarrow> string \<Rightarrow> string \<Rightarrow> string" where
  "prefixes_key kp af date asn = kp @ ''|'' @ af @ ''|'' @ date @ ''|'' @ asn"

definition ipcount_key :: "string \<Rightarrow> string \<Rightarrow> string \<Rightarrow> string \<Rightarrow> string" where
  "ipcount_key kp af date asn = kp @ ''|'' @ af @ ''|'' @ date @ ''|'' @ asn @ ''|ipcount''"

text \<open>Lines 84 to 86. The first argument is \<^verbatim>\<open>self.key_prefix\<close>.\<close>

definition already_loaded :: "string \<Rightarrow> storagedb \<Rightarrow> string \<Rightarrow> bool" where
  "already_loaded kp db date =
     (sismember db (dates_key kp ''v4'') date \<and> sismember db (dates_key kp ''v6'') date)"

text \<open>Lines 88 to 91. \<^verbatim>\<open>not cur_last\<close> holds of \<^verbatim>\<open>None\<close> and of the empty string.\<close>

definition update_last :: "string \<Rightarrow> string \<Rightarrow> string \<Rightarrow> storagedb \<Rightarrow> storagedb" where
  "update_last kp address_family date db =
     (let cur_last = redis_get db (last_key kp address_family)
      in if (case cur_last of None \<Rightarrow> True | Some c \<Rightarrow> c = [] \<or> date > c)
         then redis_set db (last_key kp address_family) date
         else db)"

text \<open>Lines 115 to 120: the commands queued for one address family.\<close>

definition pipeline :: "string \<Rightarrow> string \<Rightarrow> string \<Rightarrow> (string \<times> aggr) list \<Rightarrow> command list" where
  "pipeline kp af date to_import =
     SADD (dates_key kp af) {date} #
     SADD (asns_key kp af date) (set (map fst to_import)) #
     concat (map (\<lambda>(asn, data).
                    [SADD (prefixes_key kp af date asn) (prefixes data),
                     SET (ipcount_key kp af date asn) (str_int (ipcount data))])
                 to_import)"

text \<open>
  What load_all reads of its surroundings: the key prefix of the collector, whether the
  bgpdump library is where routeview expects it, the field \<^verbatim>\<open>first\<close> of
  \<^verbatim>\<open>META:expected_interval\<close> in the cache, and the parser of the ipaddress module.
  load_all reads the cache at every candidate and never writes it; the model takes the
  field as the same during a pass.
\<close>

record env =
  key_prefix :: string
  libbgpdump_exists :: bool
  oldest_to_load :: "string option"
  ip_network :: "string \<Rightarrow> ip_net option"

text \<open>
  A candidate file: its path, the date that lines 95 and 96 compute from its name (an
  ISO-8601 string), and what the decoder delivers for it. The regular expression and
  \<^verbatim>\<open>strptime\<close> are not modelled: a candidate is a file whose name they accept.
\<close>

record candidate =
  path :: string
  date :: string
  dump :: "item list"

text \<open>Lines 110 to 123: one turn of the loop over \<^verbatim>\<open>routes.items()\<close>.\<close>

definition load_family ::
    "env \<Rightarrow> string \<Rightarrow> string \<Rightarrow> (string \<times> string) list \<Rightarrow> storagedb \<Rightarrow> error + storagedb" where
  "load_family env dt address_family entries db =
     (case import_entries (ip_network env) entries [] of
        Inl err \<Rightarrow> Inl err
      | Inr to_import \<Rightarrow>
          (case execute (pipeline (key_prefix env) address_family dt to_import) db of
             Inl err \<Rightarrow> Inl err
           | Inr db' \<Rightarrow> Inr (update_last (key_prefix env) address_family dt db')))"

text \<open>
  The loop over \<^verbatim>\<open>routes.items()\<close>. An exception leaves the loop; the database keeps
  what the earlier turns wrote.
\<close>

fun load_families ::
    "env \<Rightarrow> string \<Rightarrow> (string \<times> (string \<times> string) list) list \<Rightarrow> storagedb
       \<Rightarrow> error option \<times> storagedb" where
  "load_families env dt [] db = (None, db)"
| "load_families env dt ((address_family, entries) # rest) db =
     (case load_family env dt address_family entries db of
        Inl err \<Rightarrow> (Some err, db)
      | Inr db' \<Rightarrow> load_families env dt rest db')"

text \<open>Lines 107 to 124: the load of one file.\<close>

definition load_file :: "env \<Rightarrow> candidate \<Rightarrow> storagedb \<Rightarrow> error option \<times> storagedb" where
  "load_file env c db =
     (case routeview (libbgpdump_exists env) (dump c) of
        Inl err \<Rightarrow> (Some err, db)
      | Inr routes \<Rightarrow> load_families env (date c) routes db)"

text \<open>Line 99: \<^verbatim>\<open>oldest_to_load and oldest_to_load > date\<close>.\<close>

definition too_old :: "string option \<Rightarrow> string \<Rightarrow> bool" where
  "too_old oldest dt = (case oldest of None \<Rightarrow> False | Some b \<Rightarrow> b \<noteq> [] \<and> b > dt)"

text \<open>
  Lines 94 to 126, over the candidates in the order of the sorted glob. There is no
  exception handler: an exception ends the pass, and the result carries it together with
  the database as it is then.
\<close>

fun load_all :: "env \<Rightarrow> candidate list \<Rightarrow> storagedb \<Rightarrow> error option \<times> storagedb" where
  "load_all env [] db = (None, db)"
| "load_all env (c # cs) db =
     (if too_old (oldest_to_load env) (date c) then load_all env cs db
      else if already_loaded (key_prefix env) db (date c) then load_all env cs db
      else
        (case load_file env c db of
           (Some err, db') \<Rightarrow> (Some err, db')
         | (None, db') \<Rightarrow> load_all env cs db'))"

text \<open>The database before anything was stored.\<close>

definition empty_db :: storagedb where
  "empty_db = \<lparr>sets = (\<lambda>k. {}), strs = (\<lambda>k. None)\<rparr>"

text \<open>
  The surroundings used in the examples: the collector \<^verbatim>\<open>rrc00\<close> of
  \<^verbatim>\<open>main\<close>, the library in place, and the first of June 2024 as the oldest date.
\<close>

definition example_env :: env where
  "example_env =
     \<lparr>key_prefix = ''ripe_rrc00'', libbgpdump_exists = True,
      oldest_to_load = Some ''2024-06-01T00:00:00'', ip_network = example_ip_network\<rparr>"

text \<open>
  Two candidate files of the examples: one whose dump holds a route of each address
  family, and a newer one on which the decoder raises.
\<close>

definition example_candidate :: candidate where
  "example_candidate =
     \<lparr>path = ''bview.20240602.0000.gz'', date = ''2024-06-02T00:00:00'',
      dump = [Entry (TableDumpV2 \<lparr>prefix = ''10.0.0.0'', prefixLength = 24, afi = 2,
                                  routeEntries = [''64511 65000'']\<rparr>),
              Entry (TableDumpV2 \<lparr>prefix = ''2001:db8::'', prefixLength = 32, afi = 10,
                                  routeEntries = [''64511 {65001}'']\<rparr>)]\<rparr>"

definition corrupt_candidate :: candidate where
  "corrupt_candidate =
     \<lparr>path = ''bview.20240603.0000.gz'', date = ''2024-06-03T00:00:00'', dump = [DecoderRaises]\<rparr>"

subsection \<open>Notions used in the statements and proofs\<close>

text \<open>What a list of commands adds to the set at a key, and the last string it stores there.\<close>

fun added :: "command list \<Rightarrow> string \<Rightarrow> string set" where
  "added [] k = {}"
| "added (SADD k' vs # cs) k = (if k' = k then vs else {}) \<union> added cs k"
| "added (SET k' v # cs) k = added cs k"

fun assigned :: "command list \<Rightarrow> string \<Rightarrow> string option" where
  "assigned [] k = None"
| "assigned (SADD k' vs # cs) k = assigned cs k"
| "assigned (SET k' v # cs) k =
     (case assigned cs k of Some w \<Rightarrow> Some w | None \<Rightarrow> if k' = k then Some v else None)"

text \<open>
  The networks of the entries that routeview attributed to one ASN, in the order of the
  entries and with their repetitions.
\<close>

definition networks_of :: "(string \<Rightarrow> ip_net option) \<Rightarrow> string \<Rightarrow> (string \<times> string) list \<Rightarrow> ip_net list" where
  "networks_of ipn asn entries =
     List.map_filter (\<lambda>(pfx, a). if a = asn then ipn pfx else None) entries"

text \<open>Lines 115 to 123 for a pipeline that the server accepts: the commands, then update_last.\<close>

definition committed :: "string \<Rightarrow> string \<Rightarrow> string \<Rightarrow> command list \<Rightarrow> storagedb \<Rightarrow> storagedb" where
  "committed kp af dt p db = update_last kp af dt (foldl apply_command db p)"

text \<open>A sequence of calls of update_last, each with its address family and date.\<close>

definition update_last_calls :: "string \<Rightarrow> (string \<times> string) list \<Rightarrow> storagedb \<Rightarrow> storagedb" where
  "update_last_calls kp calls db = foldl (\<lambda>s (af, d). update_last kp af d s) db calls"

section \<open>Properties of routeview\<close>

lemmas str_eval = split_def isspace_def isnumeric_def isdigit_def strip1_def

lemma str_nat_24: "str_nat 24 = ''24''"
  by (simp add: str_nat.simps digit_char_def)

lemma str_nat_32: "str_nat 32 = ''32''"
  by (simp add: str_nat.simps digit_char_def)

lemma comma_not_digit: "\<not> isdigit CHR '',''"
  by (simp add: isdigit_def)

lemma comma_not_numeric: "CHR '','' \<in> set s \<Longrightarrow> \<not> isnumeric s"
  using comma_not_digit by (auto simp: isnumeric_def list_all_iff)

lemma cleanup_last:
  "cleanup (rev (ts @ [t])) b =
     (if isnumeric t then Some t else if isnumeric (strip1 t) then Some (strip1 t)
      else cleanup (rev ts) b)"
  by simp

lemma cleanup_none_qualifies:
  "list_all (\<lambda>t. \<not> isnumeric t \<and> \<not> isnumeric (strip1 t)) ts \<Longrightarrow> cleanup ts b = b"
  by (induction ts) auto

text \<open>
  When no token of the last path qualifies, the entry is not skipped: it is stored under
  the origin of the entry before it, and where there is none the read of
  \<^verbatim>\<open>best_as\<close> raises.
\<close>

lemma unresolved_origin_entry:
  assumes "routeEntries e \<noteq> []"
    and "list_all (\<lambda>t. \<not> isnumeric t \<and> \<not> isnumeric (strip1 t)) (split (last (routeEntries e)))"
  shows "routeview_entry st (TableDumpV2 e) =
     (case best_as st of
        None \<Rightarrow> Inl UnboundLocalError
      | Some a \<Rightarrow>
          if afi e = AF_INET
          then Inr (st\<lparr>routes_v4 := routes_v4 st @ [(prefix e @ ''/'' @ str_nat (prefixLength e), a)],
                       best_as := Some a\<rparr>)
          else Inr (st\<lparr>routes_v6 := routes_v6 st @ [(prefix e @ ''/'' @ str_nat (prefixLength e), a)],
                       best_as := Some a\<rparr>))"
proof -
  from assms(2) have "list_all (\<lambda>t. \<not> isnumeric t \<and> \<not> isnumeric (strip1 t))
      (rev (split (last (routeEntries e))))"
    by (simp add: list_all_iff)
  then have "cleanup (rev (split (last (routeEntries e)))) (best_as st) = best_as st"
    by (rule cleanup_none_qualifies)
  with assms(1) show ?thesis
    by (simp add: routeview_entry_def last_map Let_def split: option.splits)
qed

text \<open>
  C2, as the specification states it, fails: for the path
  \<^verbatim>\<open>64511 64512 {64513,64514}\<close> routeview does not return the origin
  \<^verbatim>\<open>64513,64514\<close>.
\<close>

theorem as_set_example_counterexample:
  "routeview True
     [Entry (TableDumpV2 \<lparr>prefix = ''192.0.2.0'', prefixLength = 24, afi = 2,
                          routeEntries = [''64511 64512 {64513,64514}'']\<rparr>)]
   \<noteq> Inr [(''v4'', [(''192.0.2.0/24'', ''64513,64514'')]), (''v6'', [])]"
  by (simp add: routeview_def routeview_entry_def str_eval str_nat_24 AF_INET_def)

text \<open>
  C2, amended: for the path \<^verbatim>\<open>64511 64512 {64513,64514}\<close> the scan returns
  \<^verbatim>\<open>64512\<close>. When the rightmost token is not numeric, its first and last character
  are stripped and the rest is tested: when the rest is numeric (an AS-SET with one
  member) the rest is returned as it is; when it is not, which is so whenever it holds a
  comma, the scan goes on with the tokens to the left.
\<close>

theorem as_set_token_resolution:
  "cleanup (rev (split ''64511 64512 {64513,64514}'')) b = Some ''64512'' \<and>
   (\<not> isnumeric t \<and> isnumeric (strip1 t) \<longrightarrow> cleanup (rev (ts @ [t])) b = Some (strip1 t)) \<and>
   (\<not> isnumeric t \<and> \<not> isnumeric (strip1 t) \<longrightarrow> cleanup (rev (ts @ [t])) b = cleanup (rev ts) b) \<and>
   (CHR '','' \<in> set (strip1 t) \<longrightarrow> \<not> isnumeric (strip1 t))"
proof -
  have "cleanup (rev (split ''64511 64512 {64513,64514}'')) b = Some ''64512''"
    by (simp add: str_eval)
  moreover have "CHR '','' \<in> set (strip1 t) \<longrightarrow> \<not> isnumeric (strip1 t)"
    using comma_not_numeric by blast
  ultimately show ?thesis
    by (simp only: cleanup_last) simp
qed

lemma one_member_set_qualifies: "\<not> isnumeric ''{64513}'' \<and> isnumeric (strip1 ''{64513}'')"
  by (simp add: str_eval)

lemma two_member_set_fails:
  "\<not> isnumeric ''{64513,64514}'' \<and> \<not> isnumeric (strip1 ''{64513,64514}'') \<and>
   CHR '','' \<in> set (strip1 ''{64513,64514}'')"
  by (simp add: str_eval)

lemma cleanup_plain_tokens: "cleanup (rev [''64511'', ''64512'']) None = Some ''64512''"
  by (simp add: str_eval)

theorem as_set_token_resolution_witness:
  "\<not> isnumeric ''{64513}'' \<and> isnumeric (strip1 ''{64513}'') \<and>
   cleanup (rev ([''64511'', ''64512''] @ [''{64513}''])) None = Some (strip1 ''{64513}'') \<and>
   \<not> isnumeric ''{64513,64514}'' \<and> \<not> isnumeric (strip1 ''{64513,64514}'') \<and>
   CHR '','' \<in> set (strip1 ''{64513,64514}'') \<and>
   cleanup (rev ([''64511'', ''64512''] @ [''{64513,64514}''])) None = Some ''64512''"
proof -
  note a = as_set_token_resolution [of None "''{64513}''" "[''64511'', ''64512'']"]
  note b = as_set_token_resolution [of None "''{64513,64514}''" "[''64511'', ''64512'']"]
  from a one_member_set_qualifies
  have "cleanup (rev ([''64511'', ''64512''] @ [''{64513}''])) None = Some (strip1 ''{64513}'')"
    by blast
  moreover from b two_member_set_fails
  have "cleanup (rev ([''64511'', ''64512''] @ [''{64513,64514}''])) None
      = cleanup (rev [''64511'', ''64512'']) None"
    by blast
  ultimately show ?thesis
    using one_member_set_qualifies two_member_set_fails cleanup_plain_tokens by (simp only:) blast
qed

text \<open>
  C3: an entry whose last path has no qualifying token is not skipped. After an entry
  with origin \<^verbatim>\<open>64513\<close>, the prefix of an entry whose only path is the AS-SET
  \<^verbatim>\<open>{64513,64514}\<close> is stored under \<^verbatim>\<open>64513\<close>; as the first entry of a file it
  ends routeview with the error of the unbound \<^verbatim>\<open>best_as\<close>, and so does a first
  entry whose path is empty.
\<close>

theorem unresolved_origin_not_skipped:
  "routeview True
     [Entry (TableDumpV2 \<lparr>prefix = ''10.0.0.0'', prefixLength = 24, afi = 2,
                          routeEntries = [''64511 64512 64513'']\<rparr>),
      Entry (TableDumpV2 \<lparr>prefix = ''10.0.1.0'', prefixLength = 24, afi = 2,
                          routeEntries = [''{64513,64514}'']\<rparr>)]
   = Inr [(''v4'', [(''10.0.0.0/24'', ''64513''), (''10.0.1.0/24'', ''64513'')]), (''v6'', [])]
   \<and> routeview True
     [Entry (TableDumpV2 \<lparr>prefix = ''10.0.1.0'', prefixLength = 24, afi = 2,
                          routeEntries = [''{64513,64514}'']\<rparr>)]
   = Inl UnboundLocalError
   \<and> routeview True
     [Entry (TableDumpV2 \<lparr>prefix = ''10.0.1.0'', prefixLength = 24, afi = 2,
                          routeEntries = ['''']\<rparr>)]
   = Inl UnboundLocalError"
  by (simp add: routeview_def routeview_entry_def str_eval str_nat_24 AF_INET_def)

text \<open>
  C9: an entry with a \<^verbatim>\<open>TableDumpV1\<close> body changes nothing and raises nothing; the
  loop gives the same result, routes or error, as on the file without these entries.
\<close>

theorem routeview_skips_v1:
  "routeview_entry st TableDumpV1 = Inr st \<and>
   routeview_loop st (Entry TableDumpV1 # es) = routeview_loop st es \<and>
   routeview_loop st es = routeview_loop st (filter (\<lambda>x. x \<noteq> Entry TableDumpV1) es)"
proof -
  have one: "routeview_entry st' TableDumpV1 = Inr st'" for st'
    by (simp add: routeview_entry_def)
  have "routeview_loop st' es = routeview_loop st' (filter (\<lambda>x. x \<noteq> Entry TableDumpV1) es)" for st'
  proof (induction es arbitrary: st')
    case Nil
    show ?case by simp
  next
    case (Cons x xs)
    show ?case
    proof (cases x)
      case DecoderRaises
      then show ?thesis by simp
    next
      case (Entry b)
      show ?thesis
      proof (cases b)
        case TableDumpV1
        with Entry Cons.IH [of st'] show ?thesis by (simp add: one)
      next
        case (TableDumpV2 e)
        with Entry Cons.IH show ?thesis by (simp split: sum.splits)
      qed
    qed
  qed
  with one show ?thesis by simp
qed

text \<open>
  C10: for a \<^verbatim>\<open>TableDumpV2\<close> entry without routes, \<^verbatim>\<open>all_paths[-1]\<close> raises
  IndexError: the entry is neither skipped nor stored, and the loop ends there.
\<close>

theorem empty_routeEntries_IndexError:
  "routeEntries e = [] \<Longrightarrow>
     routeview_entry st (TableDumpV2 e) = Inl IndexError \<and>
     routeview_loop st (Entry (TableDumpV2 e) # es) = Inl IndexError"
  by (simp add: routeview_entry_def)

theorem empty_routeEntries_IndexError_witness:
  "routeEntries \<lparr>prefix = ''10.0.0.0'', prefixLength = 24, afi = 2, routeEntries = []\<rparr> = [] \<and>
   routeview True [Entry (TableDumpV2 \<lparr>prefix = ''10.0.0.0'', prefixLength = 24, afi = 2, routeEntries = []\<rparr>)]
     = Inl IndexError"
  using empty_routeEntries_IndexError
    [of "\<lparr>prefix = ''10.0.0.0'', prefixLength = 24, afi = 2, routeEntries = []\<rparr>"
        "\<lparr>routes_v4 = [], routes_v6 = [], best_as = None\<rparr>" "[]"]
  by (simp add: routeview_def)

section \<open>Properties of the aggregation\<close>

lemma map_of_update_entry:
  "map_of (update_entry k f m) k' =
     (if k' = k then Some (f (case map_of m k of None \<Rightarrow> default_aggr | Some d \<Rightarrow> d))
      else map_of m k')"
  by (induction m) auto

lemma networks_of_Nil: "networks_of ipn asn [] = []"
  by (simp add: networks_of_def)

lemma networks_of_Cons:
  "networks_of ipn asn ((pfx, a) # es) =
     (if a = asn then (case ipn pfx of None \<Rightarrow> networks_of ipn asn es
                                    | Some n \<Rightarrow> n # networks_of ipn asn es)
      else networks_of ipn asn es)"
  by (simp add: networks_of_def List.map_filter_simps split: option.splits)

lemma import_entries_lookup:
  "import_entries ipn es m = Inr m' \<Longrightarrow>
   map_of m' asn =
     (if networks_of ipn asn es = [] then map_of m asn
      else Some ((case map_of m asn of None \<Rightarrow> default_aggr | Some d \<Rightarrow> d)
                  \<lparr>prefixes := prefixes (case map_of m asn of None \<Rightarrow> default_aggr | Some d \<Rightarrow> d)
                                 \<union> net_str ` set (networks_of ipn asn es),
                   ipcount := ipcount (case map_of m asn of None \<Rightarrow> default_aggr | Some d \<Rightarrow> d)
                                + sum_list (map num_addresses (networks_of ipn asn es))\<rparr>))"
proof (induction es arbitrary: m)
  case Nil
  then show ?case by (simp add: networks_of_Nil)
next
  case (Cons e es)
  obtain pfx a where e: "e = (pfx, a)" by (cases e)
  from Cons.prems e obtain n where n: "ipn pfx = Some n"
    by (cases "ipn pfx") auto
  let ?f = "\<lambda>d. d\<lparr>prefixes := insert (net_str n) (prefixes d), ipcount := ipcount d + num_addresses n\<rparr>"
  from Cons.prems e n have "import_entries ipn es (update_entry a ?f m) = Inr m'"
    by simp
  note ih = Cons.IH [OF this]
  show ?case
  proof (cases "a = asn")
    case True
    with ih e n show ?thesis
      by (cases "map_of m asn") (auto simp: networks_of_Cons map_of_update_entry)
  next
    case False
    with ih e n show ?thesis
      by (simp add: networks_of_Cons map_of_update_entry)
  qed
qed

text \<open>
  C1, amended: for the aggregate that lines 111 to 114 build for an ASN, the prefix set is
  the set of the canonical texts of the ASN's entries, and ipcount is the sum of
  \<open>2 ^ (max_prefixlen - prefixlen)\<close> over these entries, one term for each entry. When
  no prefix occurs twice among the entries of the ASN, this is the sum over the distinct
  prefixes of the set.
\<close>

theorem ipcount_counts_every_entry:
  "import_entries ipn entries [] = Inr to_import \<and> map_of to_import asn = Some data \<longrightarrow>
     prefixes data = net_str ` set (networks_of ipn asn entries) \<and>
     ipcount data = (\<Sum>n\<leftarrow>networks_of ipn asn entries. 2 ^ (max_prefixlen n - prefixlen n)) \<and>
     (distinct (map net_str (networks_of ipn asn entries)) \<and>
      (\<forall>n \<in> set (networks_of ipn asn entries).
          addresses (net_str n) = 2 ^ (max_prefixlen n - prefixlen n))
      \<longrightarrow> ipcount data = sum addresses (prefixes data))"
proof (intro impI, elim conjE)
  let ?ns = "networks_of ipn asn entries"
  assume imp: "import_entries ipn entries [] = Inr to_import" and look: "map_of to_import asn = Some data"
  from import_entries_lookup [OF imp, of asn] look
  have ne: "?ns \<noteq> []"
    and data: "data = default_aggr\<lparr>prefixes := prefixes default_aggr \<union> net_str ` set ?ns,
                 ipcount := ipcount default_aggr + sum_list (map num_addresses ?ns)\<rparr>"
    by (auto split: if_splits)
  from data have p: "prefixes data = net_str ` set ?ns"
    by (simp add: default_aggr_def)
  from data have "ipcount data = sum_list (map num_addresses ?ns)"
    by (simp add: default_aggr_def)
  moreover have "num_addresses = (\<lambda>n. 2 ^ (max_prefixlen n - prefixlen n))"
    by (simp add: fun_eq_iff num_addresses_def)
  ultimately have c: "ipcount data = (\<Sum>n\<leftarrow>?ns. 2 ^ (max_prefixlen n - prefixlen n))"
    by simp
  have s: "ipcount data = sum addresses (prefixes data)"
    if d: "distinct (map net_str ?ns)"
      and a: "\<forall>n \<in> set ?ns. addresses (net_str n) = 2 ^ (max_prefixlen n - prefixlen n)"
  proof -
    from d have dn: "distinct ?ns" and inj: "inj_on net_str (set ?ns)"
      by (simp_all add: distinct_map)
    from c dn have "ipcount data = (\<Sum>n \<in> set ?ns. 2 ^ (max_prefixlen n - prefixlen n))"
      by (simp add: sum_list_distinct_conv_sum_set)
    also from a have "\<dots> = (\<Sum>n \<in> set ?ns. addresses (net_str n))"
      by simp
    also from inj have "\<dots> = sum addresses (net_str ` set ?ns)"
      by (simp add: sum.reindex)
    finally show ?thesis by (simp add: p)
  qed
  from p c s show "prefixes data = net_str ` set ?ns \<and>
     ipcount data = (\<Sum>n\<leftarrow>?ns. 2 ^ (max_prefixlen n - prefixlen n)) \<and>
     (distinct (map net_str ?ns) \<and>
      (\<forall>n \<in> set ?ns. addresses (net_str n) = 2 ^ (max_prefixlen n - prefixlen n))
      \<longrightarrow> ipcount data = sum addresses (prefixes data))"
    by blast
qed

text \<open>
  C1, as the specification states it, fails: for the prefixes \<^verbatim>\<open>10.0.0.0/24\<close> and
  \<^verbatim>\<open>10.0.1.0/24\<close> and a second \<^verbatim>\<open>10.0.0.0/24\<close> under one ASN the prefix set has two
  members, whose address counts add up to 512, and ipcount is 768.
\<close>

theorem repeated_prefix_counterexample:
  "import_entries example_ip_network
     [(''10.0.0.0/24'', ''65000''), (''10.0.1.0/24'', ''65000''), (''10.0.0.0/24'', ''65000'')] []
   = Inr [(''65000'', \<lparr>prefixes = {''10.0.0.0/24'', ''10.0.1.0/24''}, ipcount = 768\<rparr>)] \<and>
   num_addresses \<lparr>net_str = ''10.0.0.0/24'', max_prefixlen = 32, prefixlen = 24\<rparr> +
   num_addresses \<lparr>net_str = ''10.0.1.0/24'', max_prefixlen = 32, prefixlen = 24\<rparr> = 512"
  by (auto simp: example_ip_network_def num_addresses_def default_aggr_def)


lemma example_import:
  "import_entries example_ip_network
     [(''10.0.0.0/24'', ''65000''), (''10.0.1.0/24'', ''65000''), (''10.0.0.0/24'', ''65001'')] []
   = Inr [(''65000'', \<lparr>prefixes = {''10.0.0.0/24'', ''10.0.1.0/24''}, ipcount = 512\<rparr>),
          (''65001'', \<lparr>prefixes = {''10.0.0.0/24''}, ipcount = 256\<rparr>)]"
  by (auto simp: example_ip_network_def num_addresses_def default_aggr_def)

lemma example_networks:
  "networks_of example_ip_network ''65000''
     [(''10.0.0.0/24'', ''65000''), (''10.0.1.0/24'', ''65000''), (''10.0.0.0/24'', ''65001'')]
   = [\<lparr>net_str = ''10.0.0.0/24'', max_prefixlen = 32, prefixlen = 24\<rparr>,
      \<lparr>net_str = ''10.0.1.0/24'', max_prefixlen = 32, prefixlen = 24\<rparr>]"
  by (simp add: networks_of_Cons networks_of_Nil example_ip_network_def)

theorem ipcount_counts_every_entry_witness:
  "import_entries example_ip_network
     [(''10.0.0.0/24'', ''65000''), (''10.0.1.0/24'', ''65000''), (''10.0.0.0/24'', ''65001'')] []
   = Inr [(''65000'', \<lparr>prefixes = {''10.0.0.0/24'', ''10.0.1.0/24''}, ipcount = 512\<rparr>),
          (''65001'', \<lparr>prefixes = {''10.0.0.0/24''}, ipcount = 256\<rparr>)] \<and>
   map_of [(''65000'', \<lparr>prefixes = {''10.0.0.0/24'', ''10.0.1.0/24''}, ipcount = 512\<rparr>),
           (''65001'', \<lparr>prefixes = {''10.0.0.0/24''}, ipcount = 256\<rparr>)] ''65000''
     = Some \<lparr>prefixes = {''10.0.0.0/24'', ''10.0.1.0/24''}, ipcount = 512\<rparr> \<and>
   distinct (map net_str (networks_of example_ip_network ''65000''
     [(''10.0.0.0/24'', ''65000''), (''10.0.1.0/24'', ''65000''), (''10.0.0.0/24'', ''65001'')])) \<and>
   networks_of example_ip_network ''65000''
     [(''10.0.0.0/24'', ''65000''), (''10.0.1.0/24'', ''65000''), (''10.0.0.0/24'', ''65001'')]
     = [\<lparr>net_str = ''10.0.0.0/24'', max_prefixlen = 32, prefixlen = 24\<rparr>,
        \<lparr>net_str = ''10.0.1.0/24'', max_prefixlen = 32, prefixlen = 24\<rparr>] \<and>
   (256::int) = 2 ^ (32 - 24) \<and>
   ipcount \<lparr>prefixes = {''10.0.0.0/24'', ''10.0.1.0/24''}, ipcount = 512\<rparr>
     = sum (\<lambda>s. 256) (prefixes \<lparr>prefixes = {''10.0.0.0/24'', ''10.0.1.0/24''}, ipcount = 512\<rparr>)"
proof -
  let ?E = "[(''10.0.0.0/24'', ''65000''), (''10.0.1.0/24'', ''65000''), (''10.0.0.0/24'', ''65001'')]"
  let ?D = "\<lparr>prefixes = {''10.0.0.0/24'', ''10.0.1.0/24''}, ipcount = 512\<rparr>"
  let ?T = "[(''65000'', ?D), (''65001'', \<lparr>prefixes = {''10.0.0.0/24''}, ipcount = 256\<rparr>)]"
  have m: "map_of ?T ''65000'' = Some ?D" by simp
  have d: "distinct (map net_str (networks_of example_ip_network ''65000'' ?E))"
    by (simp add: example_networks)
  have a: "\<forall>n \<in> set (networks_of example_ip_network ''65000'' ?E).
       (\<lambda>s. 256) (net_str n) = (2::int) ^ (max_prefixlen n - prefixlen n)"
    by (simp add: example_networks)
  from ipcount_counts_every_entry [of example_ip_network ?E ?T "''65000''" ?D "\<lambda>s. 256"]
    example_import m d a
  have "ipcount ?D = sum (\<lambda>s. 256) (prefixes ?D)" by blast
  moreover have "(256::int) = 2 ^ (32 - 24)" by simp
  ultimately show ?thesis using example_import example_networks m d by blast
qed

section \<open>Properties of the store and of load_all\<close>

lemma last_key_inj: "last_key kp af = last_key kp af' \<longleftrightarrow> af = af'"
  by (simp add: last_key_def)

lemma redis_get_update_last_same:
  "redis_get (update_last kp af d db) (last_key kp af) =
     Some (case redis_get db (last_key kp af) of None \<Rightarrow> d | Some cur \<Rightarrow> max cur d)"
  by (auto simp: update_last_def redis_get_def redis_set_def Let_def max_def split: option.splits)

lemma redis_get_update_last_other:
  "af' \<noteq> af \<Longrightarrow> redis_get (update_last kp af' d db) (last_key kp af) = redis_get db (last_key kp af)"
  by (auto simp: update_last_def redis_get_def redis_set_def Let_def last_key_inj split: option.splits)

lemma update_last_calls_mono:
  "redis_get db (last_key kp af) = Some cur \<Longrightarrow>
     \<exists>cur'. redis_get (update_last_calls kp calls db) (last_key kp af) = Some cur' \<and> cur \<le> cur'"
proof (induction calls arbitrary: db cur)
  case Nil
  then show ?case by (simp add: update_last_calls_def)
next
  case (Cons c calls)
  obtain af' d where c: "c = (af', d)" by (cases c)
  let ?db = "update_last kp af' d db"
  have "\<exists>m. redis_get ?db (last_key kp af) = Some m \<and> cur \<le> m"
  proof (cases "af' = af")
    case True
    with Cons.prems show ?thesis by (simp add: redis_get_update_last_same)
  next
    case False
    with Cons.prems show ?thesis by (simp add: redis_get_update_last_other)
  qed
  then obtain m where m: "redis_get ?db (last_key kp af) = Some m" "cur \<le> m" by blast
  from Cons.IH [OF m(1)] obtain cur' where
    "redis_get (update_last_calls kp calls ?db) (last_key kp af) = Some cur'" "m \<le> cur'" by blast
  with m(2) c show ?case by (auto simp: update_last_calls_def)
qed

text \<open>
  C6: after update_last the pointer of the address family is the greater, in the order of
  strings, of the pointer before and the date, and the date itself when there was no
  pointer; across any sequence of calls of update_last, for any address families and any
  dates, the pointer of a family never becomes smaller.
\<close>

theorem last_pointer_monotone:
  "redis_get (update_last kp af d db) (last_key kp af) =
     Some (case redis_get db (last_key kp af) of None \<Rightarrow> d | Some cur \<Rightarrow> max cur d) \<and>
   (redis_get db (last_key kp af) = Some cur \<longrightarrow>
      (\<exists>cur'. redis_get (update_last_calls kp calls db) (last_key kp af) = Some cur' \<and> cur \<le> cur'))"
  using redis_get_update_last_same update_last_calls_mono by blast

lemma example_last_pointer: "redis_get (update_last ''ripe_rrc00'' ''v4'' ''2024-06-02T00:00:00'' empty_db) (last_key ''ripe_rrc00'' ''v4'')
   = Some ''2024-06-02T00:00:00''"
  by (simp add: update_last_def redis_get_def redis_set_def empty_db_def)

theorem last_pointer_monotone_witness:
  "redis_get (update_last ''ripe_rrc00'' ''v4'' ''2024-06-02T00:00:00'' empty_db) (last_key ''ripe_rrc00'' ''v4'')
     = Some ''2024-06-02T00:00:00'' \<and>
   redis_get (update_last ''ripe_rrc00'' ''v4'' ''2024-06-01T00:00:00''
               (update_last ''ripe_rrc00'' ''v4'' ''2024-06-02T00:00:00'' empty_db)) (last_key ''ripe_rrc00'' ''v4'')
     = Some ''2024-06-02T00:00:00'' \<and>
   (\<exists>cur'. redis_get (update_last_calls ''ripe_rrc00'' [(''v4'', ''2024-06-01T00:00:00''), (''v6'', ''2024-06-03T00:00:00'')]
               (update_last ''ripe_rrc00'' ''v4'' ''2024-06-02T00:00:00'' empty_db)) (last_key ''ripe_rrc00'' ''v4'')
             = Some cur' \<and> ''2024-06-02T00:00:00'' \<le> cur')"
  using last_pointer_monotone [of "''ripe_rrc00''" "''v4''" "''2024-06-01T00:00:00''"
      "update_last ''ripe_rrc00'' ''v4'' ''2024-06-02T00:00:00'' empty_db" "''2024-06-02T00:00:00''"
      "[(''v4'', ''2024-06-01T00:00:00''), (''v6'', ''2024-06-03T00:00:00'')]"]
    example_last_pointer
  by (simp add: max_def)

lemma sets_run: "sets (foldl apply_command db cs) k = sets db k \<union> added cs k"
proof (induction cs arbitrary: db)
  case Nil
  show ?case by simp
next
  case (Cons c cs)
  show ?case by (cases c) (auto simp: Cons.IH redis_set_def)
qed

lemma strs_run:
  "strs (foldl apply_command db cs) k = (case assigned cs k of None \<Rightarrow> strs db k | Some v \<Rightarrow> Some v)"
proof (induction cs arbitrary: db)
  case Nil
  show ?case by simp
next
  case (Cons c cs)
  show ?case by (cases c) (auto simp: Cons.IH redis_set_def split: option.splits)
qed

lemma sets_update_last: "sets (update_last kp af d db) = sets db"
  by (simp add: update_last_def redis_set_def Let_def)

lemma added_append: "added (xs @ ys) k = added xs k \<union> added ys k"
  by (induction xs k rule: added.induct) auto

lemma added_entries_other_family:
  "af \<noteq> af' \<Longrightarrow> length af = length af' \<Longrightarrow>
   added (concat (map (\<lambda>(asn, data).
                    [SADD (prefixes_key kp af dt asn) (prefixes data),
                     SET (ipcount_key kp af dt asn) (str_int (ipcount data))]) m)) (dates_key kp af') = {}"
  by (induction m) (auto simp: prefixes_key_def dates_key_def)

lemma added_pipeline_other_family:
  "af \<noteq> af' \<Longrightarrow> length af = length af' \<Longrightarrow> added (pipeline kp af dt m) (dates_key kp af') = {}"
  by (simp add: pipeline_def added_entries_other_family) (simp add: dates_key_def asns_key_def)

lemma date_in_added_pipeline: "dt \<in> added (pipeline kp af dt m) (dates_key kp af)"
  by (simp add: pipeline_def)

lemma load_family_sets:
  assumes "load_family env d af entries db = Inr db'"
  shows "\<exists>m. sets db' = (\<lambda>k. sets db k \<union> added (pipeline (key_prefix env) af d m) k)"
  using assms
  by (auto simp: load_family_def execute_def sets_update_last sets_run fun_eq_iff
           split: sum.splits if_splits)


lemma load_family_dates_other:
  assumes "load_family env d af entries db = Inr db'" "af \<noteq> af'" "length af = length af'"
  shows "sets db' (dates_key (key_prefix env) af') = sets db (dates_key (key_prefix env) af')"
proof -
  from load_family_sets [OF assms(1)] obtain m where
    "sets db' = (\<lambda>k. sets db k \<union> added (pipeline (key_prefix env) af d m) k)" by blast
  with assms(2,3) show ?thesis by (simp add: added_pipeline_other_family)
qed

lemma load_family_dates_same:
  assumes "load_family env d af entries db = Inr db'"
  shows "d \<in> sets db' (dates_key (key_prefix env) af)"
proof -
  from load_family_sets [OF assms(1)] obtain m where
    "sets db' = (\<lambda>k. sets db k \<union> added (pipeline (key_prefix env) af d m) k)" by blast
  then show ?thesis by (simp add: date_in_added_pipeline)
qed

lemma load_family_sets_mono:
  assumes "load_family env d af entries db = Inr db'"
  shows "sets db k \<subseteq> sets db' k"
proof -
  from load_family_sets [OF assms(1)] obtain m where
    "sets db' = (\<lambda>k. sets db k \<union> added (pipeline (key_prefix env) af d m) k)" by blast
  then show ?thesis by simp
qed

text \<open>
  C5: already_loaded holds of a date exactly when the sets of loaded dates of v4 and of v6
  both contain it. After the commit of one address family for a date that the set of the
  other family does not contain, already_loaded is false for the date; after the commits
  of both families it is true.
\<close>

theorem already_loaded_needs_both_families:
  "already_loaded kp db d = (d \<in> sets db (dates_key kp ''v4'') \<and> d \<in> sets db (dates_key kp ''v6'')) \<and>
   (load_family env d ''v4'' entries db = Inr db' \<and> d \<notin> sets db (dates_key (key_prefix env) ''v6'')
      \<longrightarrow> \<not> already_loaded (key_prefix env) db' d) \<and>
   (load_family env d ''v6'' entries db = Inr db' \<and> d \<notin> sets db (dates_key (key_prefix env) ''v4'')
      \<longrightarrow> \<not> already_loaded (key_prefix env) db' d) \<and>
   (load_family env d ''v4'' e4 db = Inr db1 \<and> load_family env d ''v6'' e6 db1 = Inr db2
      \<longrightarrow> already_loaded (key_prefix env) db2 d)"
proof -
  have a: "already_loaded kp db d = (d \<in> sets db (dates_key kp ''v4'') \<and> d \<in> sets db (dates_key kp ''v6''))"
    by (simp add: already_loaded_def sismember_def)
  have b: "\<not> already_loaded (key_prefix env) db' d"
    if "load_family env d ''v4'' entries db = Inr db'" "d \<notin> sets db (dates_key (key_prefix env) ''v6'')"
    using that load_family_dates_other [of env d "''v4''" entries db db' "''v6''"]
    by (simp add: already_loaded_def sismember_def)
  have c: "\<not> already_loaded (key_prefix env) db' d"
    if "load_family env d ''v6'' entries db = Inr db'" "d \<notin> sets db (dates_key (key_prefix env) ''v4'')"
    using that load_family_dates_other [of env d "''v6''" entries db db' "''v4''"]
    by (simp add: already_loaded_def sismember_def)
  have e: "already_loaded (key_prefix env) db2 d"
    if "load_family env d ''v4'' e4 db = Inr db1" "load_family env d ''v6'' e6 db1 = Inr db2"
    using load_family_dates_same [OF that(1)] load_family_dates_same [OF that(2)]
      load_family_sets_mono [OF that(2), of "dates_key (key_prefix env) ''v4''"]
    by (auto simp: already_loaded_def sismember_def)
  from a b c e show ?thesis by blast
qed

lemma num_addresses_24: "num_addresses \<lparr>net_str = s, max_prefixlen = 32, prefixlen = 24\<rparr> = 256"
  by (simp add: num_addresses_def)

lemma example_load_v4:
  "load_family example_env ''2024-06-02T00:00:00'' ''v4'' [(''10.0.0.0/24'', ''65000'')] empty_db =
     Inr (update_last ''ripe_rrc00'' ''v4'' ''2024-06-02T00:00:00''
           (foldl apply_command empty_db
              (pipeline ''ripe_rrc00'' ''v4'' ''2024-06-02T00:00:00''
                 [(''65000'', \<lparr>prefixes = {''10.0.0.0/24''}, ipcount = 256\<rparr>)])))"
  by (simp add: load_family_def example_env_def example_ip_network_def num_addresses_24
        default_aggr_def execute_def pipeline_def)


lemma example_load_v6:
  "load_family example_env ''2024-06-02T00:00:00'' ''v6'' [(''2001:db8::/32'', ''65001'')]
     (update_last ''ripe_rrc00'' ''v4'' ''2024-06-02T00:00:00''
           (foldl apply_command empty_db
              (pipeline ''ripe_rrc00'' ''v4'' ''2024-06-02T00:00:00''
                 [(''65000'', \<lparr>prefixes = {''10.0.0.0/24''}, ipcount = 256\<rparr>)]))) =
     Inr (update_last ''ripe_rrc00'' ''v6'' ''2024-06-02T00:00:00''
           (foldl apply_command
              (update_last ''ripe_rrc00'' ''v4'' ''2024-06-02T00:00:00''
                (foldl apply_command empty_db
                  (pipeline ''ripe_rrc00'' ''v4'' ''2024-06-02T00:00:00''
                     [(''65000'', \<lparr>prefixes = {''10.0.0.0/24''}, ipcount = 256\<rparr>)])))
              (pipeline ''ripe_rrc00'' ''v6'' ''2024-06-02T00:00:00''
                 [(''65001'', \<lparr>prefixes = {''2001:db8::/32''}, ipcount = 2 ^ 96\<rparr>)])))"
  by (simp add: load_family_def example_env_def example_ip_network_def num_addresses_def
        default_aggr_def execute_def pipeline_def)

theorem already_loaded_needs_both_families_witness:
  "load_family example_env ''2024-06-02T00:00:00'' ''v4'' [(''10.0.0.0/24'', ''65000'')] empty_db =
     Inr (update_last ''ripe_rrc00'' ''v4'' ''2024-06-02T00:00:00''
           (foldl apply_command empty_db
              (pipeline ''ripe_rrc00'' ''v4'' ''2024-06-02T00:00:00''
                 [(''65000'', \<lparr>prefixes = {''10.0.0.0/24''}, ipcount = 256\<rparr>)]))) \<and>
   ''2024-06-02T00:00:00'' \<notin> sets empty_db (dates_key (key_prefix example_env) ''v6'') \<and>
   \<not> already_loaded (key_prefix example_env)
       (update_last ''ripe_rrc00'' ''v4'' ''2024-06-02T00:00:00''
           (foldl apply_command empty_db
              (pipeline ''ripe_rrc00'' ''v4'' ''2024-06-02T00:00:00''
                 [(''65000'', \<lparr>prefixes = {''10.0.0.0/24''}, ipcount = 256\<rparr>)])))
       ''2024-06-02T00:00:00'' \<and>
   already_loaded (key_prefix example_env)
       (update_last ''ripe_rrc00'' ''v6'' ''2024-06-02T00:00:00''
           (foldl apply_command
              (update_last ''ripe_rrc00'' ''v4'' ''2024-06-02T00:00:00''
                (foldl apply_command empty_db
                  (pipeline ''ripe_rrc00'' ''v4'' ''2024-06-02T00:00:00''
                     [(''65000'', \<lparr>prefixes = {''10.0.0.0/24''}, ipcount = 256\<rparr>)])))
              (pipeline ''ripe_rrc00'' ''v6'' ''2024-06-02T00:00:00''
                 [(''65001'', \<lparr>prefixes = {''2001:db8::/32''}, ipcount = 2 ^ 96\<rparr>)])))
       ''2024-06-02T00:00:00''"
proof -
  have h: "''2024-06-02T00:00:00'' \<notin> sets empty_db (dates_key (key_prefix example_env) ''v6'')"
    by (simp add: empty_db_def)
  note t = already_loaded_needs_both_families
    [of "key_prefix example_env" empty_db "''2024-06-02T00:00:00''" example_env
        "[(''10.0.0.0/24'', ''65000'')]" _ "[(''10.0.0.0/24'', ''65000'')]" _
        "[(''2001:db8::/32'', ''65001'')]"]
  from t example_load_v4 example_load_v6 h show ?thesis by blast
qed

text \<open>
  C8: a candidate whose date is smaller than the oldest date of the cache is passed over:
  the pass goes on with the next candidates on the same database, whatever the file holds,
  so routeview is not called for it. For a date equal to the bound or greater, and when
  there is no bound, the candidate is not passed over by this rule: it is loaded unless
  already_loaded holds of its date.
\<close>

theorem too_old_skipped:
  "(oldest_to_load env = Some b \<and> date c < b \<longrightarrow> load_all env (c # cs) db = load_all env cs db) \<and>
   (oldest_to_load env = Some b \<and> b \<le> date c \<longrightarrow>
      load_all env (c # cs) db =
        (if already_loaded (key_prefix env) db (date c) then load_all env cs db
         else (case load_file env c db of
                 (Some err, db') \<Rightarrow> (Some err, db')
               | (None, db') \<Rightarrow> load_all env cs db'))) \<and>
   (oldest_to_load env = None \<longrightarrow>
      load_all env (c # cs) db =
        (if already_loaded (key_prefix env) db (date c) then load_all env cs db
         else (case load_file env c db of
                 (Some err, db') \<Rightarrow> (Some err, db')
               | (None, db') \<Rightarrow> load_all env cs db')))"
proof -
  have old: "too_old (Some b) (date c)" if "date c < b"
    using that by (auto simp: too_old_def)
  have new: "\<not> too_old (Some b) (date c)" if "b \<le> date c"
    using that by (auto simp: too_old_def)
  have none: "\<not> too_old None (date c)"
    by (simp add: too_old_def)
  from old new none show ?thesis by simp
qed

lemma example_dates:
  "''2024-05-31T00:00:00'' < ''2024-06-01T00:00:00'' \<and> ''2024-06-01T00:00:00'' \<le> ''2024-06-01T00:00:00''"
  by simp

theorem too_old_skipped_witness:
  "oldest_to_load example_env = Some ''2024-06-01T00:00:00'' \<and>
   date \<lparr>path = ''bview.20240531.0000.gz'', date = ''2024-05-31T00:00:00'', dump = [DecoderRaises]\<rparr>
     < ''2024-06-01T00:00:00'' \<and>
   load_all example_env
     [\<lparr>path = ''bview.20240531.0000.gz'', date = ''2024-05-31T00:00:00'', dump = [DecoderRaises]\<rparr>] empty_db
     = (None, empty_db) \<and>
   ''2024-06-01T00:00:00''
     \<le> date \<lparr>path = ''bview.20240601.0000.gz'', date = ''2024-06-01T00:00:00'', dump = [DecoderRaises]\<rparr> \<and>
   load_all example_env
     [\<lparr>path = ''bview.20240601.0000.gz'', date = ''2024-06-01T00:00:00'', dump = [DecoderRaises]\<rparr>] empty_db
     = (Some DecodeError, empty_db) \<and>
   oldest_to_load (example_env\<lparr>oldest_to_load := None\<rparr>) = None \<and>
   load_all (example_env\<lparr>oldest_to_load := None\<rparr>)
     [\<lparr>path = ''bview.20240531.0000.gz'', date = ''2024-05-31T00:00:00'', dump = [DecoderRaises]\<rparr>] empty_db
     = (Some DecodeError, empty_db)"
proof -
  let ?old = "\<lparr>path = ''bview.20240531.0000.gz'', date = ''2024-05-31T00:00:00'', dump = [DecoderRaises]\<rparr>"
  let ?new = "\<lparr>path = ''bview.20240601.0000.gz'', date = ''2024-06-01T00:00:00'', dump = [DecoderRaises]\<rparr>"
  have o: "oldest_to_load example_env = Some ''2024-06-01T00:00:00''"
    by (simp add: example_env_def)
  have lf: "load_file env' \<lparr>path = p, date = d, dump = [DecoderRaises]\<rparr> empty_db = (Some DecodeError, empty_db)"
    if "libbgpdump_exists env'" for env' p d
    using that by (simp add: load_file_def routeview_def)
  have nl: "\<not> already_loaded kp empty_db d" for kp d
    by (simp add: already_loaded_def sismember_def empty_db_def)
  have l: "libbgpdump_exists example_env" "libbgpdump_exists (example_env\<lparr>oldest_to_load := None\<rparr>)"
    by (simp_all add: example_env_def)
  from too_old_skipped [of example_env "''2024-06-01T00:00:00''" ?old "[]" empty_db] o example_dates
  have 1: "load_all example_env [?old] empty_db = (None, empty_db)" by simp
  from too_old_skipped [of example_env "''2024-06-01T00:00:00''" ?new "[]" empty_db] o example_dates
  have 2: "load_all example_env [?new] empty_db = (Some DecodeError, empty_db)"
    by (simp add: nl lf l)
  from too_old_skipped [of "example_env\<lparr>oldest_to_load := None\<rparr>" _ ?old "[]" empty_db]
  have 3: "load_all (example_env\<lparr>oldest_to_load := None\<rparr>) [?old] empty_db = (Some DecodeError, empty_db)"
    by (simp add: nl lf l)
  from 1 2 3 o example_dates show ?thesis by simp
qed


lemma storagedb_eqI:
  fixes a b :: storagedb
  assumes "\<And>k. sets a k = sets b k" "\<And>k. strs a k = strs b k"
  shows "a = b"
  using assms by (intro storagedb.equality) (auto simp: fun_eq_iff)

lemma strs_update_last:
  "strs (update_last kp af d db) k =
     (if k = last_key kp af
      then Some (case strs db k of None \<Rightarrow> d | Some cur \<Rightarrow> max cur d)
      else strs db k)"
  by (auto simp: update_last_def redis_get_def redis_set_def Let_def max_def split: option.splits)

lemma sets_committed: "sets (committed kp af d p db) k = sets db k \<union> added p k"
  by (simp add: committed_def sets_update_last sets_run)

lemma strs_committed:
  "assigned p (last_key kp af) = None \<Longrightarrow>
   strs (committed kp af d p db) k =
     (if k = last_key kp af
      then Some (case strs db k of None \<Rightarrow> d | Some cur \<Rightarrow> max cur d)
      else (case assigned p k of None \<Rightarrow> strs db k | Some v \<Rightarrow> Some v))"
  by (simp add: committed_def strs_update_last strs_run)

lemma assigned_append:
  "assigned (xs @ ys) k = (case assigned ys k of Some w \<Rightarrow> Some w | None \<Rightarrow> assigned xs k)"
  by (induction xs k rule: assigned.induct) (auto split: option.splits)

lemma assigned_entries:
  "assigned (concat (map (\<lambda>(asn, data).
                    [SADD (prefixes_key kp af dt asn) (prefixes data),
                     SET (ipcount_key kp af dt asn) (str_int (ipcount data))]) m)) k = Some v
   \<Longrightarrow> \<exists>asn. k = ipcount_key kp af dt asn"
  by (induction m) (auto split: option.splits if_splits)

lemma assigned_pipeline:
  "assigned (pipeline kp af dt m) k = Some v \<Longrightarrow> \<exists>asn. k = ipcount_key kp af dt asn"
  using assigned_entries [of kp af dt m k v] by (simp add: pipeline_def)

lemma ipcount_key_not_last: "ipcount_key kp af dt asn \<noteq> last_key kp af'"
proof
  assume "ipcount_key kp af dt asn = last_key kp af'"
  then have "rev (ipcount_key kp af dt asn) = rev (last_key kp af')" by simp
  then show False by (simp add: ipcount_key_def last_key_def)
qed

lemma ipcount_key_families: "ipcount_key kp ''v4'' dt asn \<noteq> ipcount_key kp ''v6'' dt' asn'"
  by (simp add: ipcount_key_def)

lemma assigned_pipeline_last: "assigned (pipeline kp af dt m) (last_key kp af') = None"
proof (cases "assigned (pipeline kp af dt m) (last_key kp af')")
  case None
  then show ?thesis .
next
  case (Some v)
  from assigned_pipeline [OF this] ipcount_key_not_last [of kp af dt _ af'] show ?thesis
    by metis
qed

lemma assigned_pipeline_families:
  "assigned (pipeline kp ''v4'' dt m) k = Some v \<Longrightarrow> assigned (pipeline kp ''v6'' dt' m') k = None"
proof (cases "assigned (pipeline kp ''v6'' dt' m') k")
  case None
  then show ?thesis by simp
next
  case (Some w)
  assume "assigned (pipeline kp ''v4'' dt m) k = Some v"
  from assigned_pipeline [OF this] assigned_pipeline [OF Some] ipcount_key_families [of kp dt _ dt']
  show ?thesis by metis
qed


lemma committed_idem:
  assumes "assigned p (last_key kp af) = None"
  shows "committed kp af d p (committed kp af d p db) = committed kp af d p db"
proof (rule storagedb_eqI)
  fix k
  show "sets (committed kp af d p (committed kp af d p db)) k = sets (committed kp af d p db) k"
    by (auto simp: sets_committed)
  show "strs (committed kp af d p (committed kp af d p db)) k = strs (committed kp af d p db) k"
    by (auto simp: strs_committed [OF assms] split: option.splits)
qed

lemma committed_absorb:
  assumes p4: "p4 = pipeline kp ''v4'' d m4" and p6: "p6 = pipeline kp ''v6'' d m6"
  shows "committed kp ''v4'' d p4 (committed kp ''v6'' d p6 (committed kp ''v4'' d p4 db))
       = committed kp ''v6'' d p6 (committed kp ''v4'' d p4 db)"
proof (rule storagedb_eqI)
  fix k
  have a4: "assigned p4 (last_key kp af') = None" for af'
    by (simp add: p4 assigned_pipeline_last)
  have a6: "assigned p6 (last_key kp af') = None" for af'
    by (simp add: p6 assigned_pipeline_last)
  have disj: "assigned p6 k = None" if "assigned p4 k = Some v" for v
    using that assigned_pipeline_families [of kp d m4 k v d m6] by (simp add: p4 p6)
  have ne: "last_key kp ''v4'' \<noteq> last_key kp ''v6''"
    by (simp add: last_key_def)
  show "sets (committed kp ''v4'' d p4 (committed kp ''v6'' d p6 (committed kp ''v4'' d p4 db))) k
      = sets (committed kp ''v6'' d p6 (committed kp ''v4'' d p4 db)) k"
    by (auto simp: sets_committed)
  show "strs (committed kp ''v4'' d p4 (committed kp ''v6'' d p6 (committed kp ''v4'' d p4 db))) k
      = strs (committed kp ''v6'' d p6 (committed kp ''v4'' d p4 db)) k"
  proof (cases "k = last_key kp ''v4''")
    case True
    with ne a6 [of "''v4''"] show ?thesis
      by (simp add: strs_committed [OF a4] strs_committed [OF a6] split: option.splits)
  next
    case False
    show ?thesis
    proof (cases "assigned p4 k")
      case None
      with False show ?thesis
        by (simp add: strs_committed [OF a4])
    next
      case (Some v)
      from disj [OF Some] a4 [of "''v6''"] Some have "k \<noteq> last_key kp ''v6''"
        by auto
      with False Some disj [OF Some] show ?thesis
        by (simp add: strs_committed [OF a4] strs_committed [OF a6])
    qed
  qed
qed

lemma load_family_committed:
  "load_family env d af es db =
     (case import_entries (ip_network env) es [] of
        Inl err \<Rightarrow> Inl err
      | Inr m \<Rightarrow>
          if list_ex refused (pipeline (key_prefix env) af d m) then Inl ResponseError
          else Inr (committed (key_prefix env) af d (pipeline (key_prefix env) af d m) db))"
  by (simp add: load_family_def execute_def committed_def split: sum.splits)

lemma load_families_twice:
  "load_families env d [(''v4'', r4), (''v6'', r6)]
      (snd (load_families env d [(''v4'', r4), (''v6'', r6)] db))
   = load_families env d [(''v4'', r4), (''v6'', r6)] db"
proof -
  let ?kp = "key_prefix env"
  show ?thesis
  proof (cases "load_family env d ''v4'' r4 db")
    case (Inl e)
    then show ?thesis by simp
  next
    case (Inr db1)
    then obtain m4 where m4: "import_entries (ip_network env) r4 [] = Inr m4"
      and ok4: "\<not> list_ex refused (pipeline ?kp ''v4'' d m4)"
      and db1: "db1 = committed ?kp ''v4'' d (pipeline ?kp ''v4'' d m4) db"
      by (auto simp: load_family_committed split: sum.splits if_splits)
    have f4: "load_family env d ''v4'' r4 x = Inr (committed ?kp ''v4'' d (pipeline ?kp ''v4'' d m4) x)" for x
      using m4 ok4 by (simp add: load_family_committed)
    have idem4: "committed ?kp ''v4'' d (pipeline ?kp ''v4'' d m4) db1 = db1"
      unfolding db1 by (rule committed_idem) (rule assigned_pipeline_last)
    show ?thesis
    proof (cases "load_family env d ''v6'' r6 db1")
      case (Inl e)
      then have "load_family env d ''v6'' r6 x = Inl e" for x
        by (auto simp: load_family_committed split: sum.splits if_splits)
      with f4 idem4 db1 show ?thesis by simp
    next
      case r: (Inr db2)
      then obtain m6 where m6: "import_entries (ip_network env) r6 [] = Inr m6"
        and ok6: "\<not> list_ex refused (pipeline ?kp ''v6'' d m6)"
        and db2: "db2 = committed ?kp ''v6'' d (pipeline ?kp ''v6'' d m6) db1"
        by (auto simp: load_family_committed split: sum.splits if_splits)
      have f6: "load_family env d ''v6'' r6 x = Inr (committed ?kp ''v6'' d (pipeline ?kp ''v6'' d m6) x)" for x
        using m6 ok6 by (simp add: load_family_committed)
      have abs: "committed ?kp ''v4'' d (pipeline ?kp ''v4'' d m4) db2 = db2"
        unfolding db2 db1 by (rule committed_absorb) (rule refl)+
      have idem6: "committed ?kp ''v6'' d (pipeline ?kp ''v6'' d m6) db2 = db2"
        unfolding db2 by (rule committed_idem) (rule assigned_pipeline_last)
      have first: "load_families env d [(''v4'', r4), (''v6'', r6)] db = (None, db2)"
        using f4 [of db] f6 [of db1] db1 db2 by simp
      have "load_families env d [(''v4'', r4), (''v6'', r6)] db2 = (None, db2)"
        using f4 [of db2] f6 [of db2] abs idem6 by simp
      with first show ?thesis by simp
    qed
  qed
qed

lemma routeview_shape:
  "routeview l dmp = Inr routes \<Longrightarrow> \<exists>r4 r6. routes = [(''v4'', r4), (''v6'', r6)]"
  by (auto simp: routeview_def split: if_splits sum.splits)

lemma load_file_twice: "load_file env c (snd (load_file env c db)) = load_file env c db"
proof (cases "routeview (libbgpdump_exists env) (dump c)")
  case (Inl e)
  then show ?thesis by (simp add: load_file_def)
next
  case (Inr routes)
  from routeview_shape [OF this] obtain r4 r6 where "routes = [(''v4'', r4), (''v6'', r6)]"
    by blast
  with Inr load_families_twice [of env "date c" r4 r6 db] show ?thesis
    by (simp add: load_file_def)
qed


text \<open>
  C4: the load of a file on the database that a load of the same file left gives the same
  result and the same database: every key holds what it held after the first load, in
  particular the prefix set and the ipcount of every address family, date and ASN.
  \<^verbatim>\<open>SADD\<close> is a union with a set that the key already contains, \<^verbatim>\<open>SET\<close> stores the
  value that is already there, and update_last finds the date in place.
\<close>

theorem reload_is_idempotent:
  "load_file env c (snd (load_file env c db)) = load_file env c db \<and>
   sets (snd (load_file env c (snd (load_file env c db)))) (prefixes_key (key_prefix env) af (date c) asn)
     = sets (snd (load_file env c db)) (prefixes_key (key_prefix env) af (date c) asn) \<and>
   strs (snd (load_file env c (snd (load_file env c db)))) (ipcount_key (key_prefix env) af (date c) asn)
     = strs (snd (load_file env c db)) (ipcount_key (key_prefix env) af (date c) asn)"
  by (simp add: load_file_twice)

lemma str_int_256: "str_int 256 = ''256''"
  by (simp add: str_int_def str_nat.simps digit_char_def)

lemma example_routeview:
  "routeview True (dump example_candidate) =
     Inr [(''v4'', [(''10.0.0.0/24'', ''65000'')]), (''v6'', [(''2001:db8::/32'', ''65001'')])]"
  by (simp add: example_candidate_def routeview_def routeview_entry_def str_eval str_nat_24
        str_nat_32 AF_INET_def)

lemma example_load_file:
  "load_file example_env example_candidate empty_db =
     (None,
      committed ''ripe_rrc00'' ''v6'' ''2024-06-02T00:00:00''
        (pipeline ''ripe_rrc00'' ''v6'' ''2024-06-02T00:00:00''
           [(''65001'', \<lparr>prefixes = {''2001:db8::/32''}, ipcount = 2 ^ 96\<rparr>)])
        (committed ''ripe_rrc00'' ''v4'' ''2024-06-02T00:00:00''
           (pipeline ''ripe_rrc00'' ''v4'' ''2024-06-02T00:00:00''
              [(''65000'', \<lparr>prefixes = {''10.0.0.0/24''}, ipcount = 256\<rparr>)])
           empty_db))"
proof -
  have d: "date example_candidate = ''2024-06-02T00:00:00''"
    by (simp add: example_candidate_def)
  have e: "libbgpdump_exists example_env" "key_prefix example_env = ''ripe_rrc00''"
    "ip_network example_env = example_ip_network"
    by (simp_all add: example_env_def)
  have i4: "import_entries example_ip_network [(''10.0.0.0/24'', ''65000'')] []
      = Inr [(''65000'', \<lparr>prefixes = {''10.0.0.0/24''}, ipcount = 256\<rparr>)]"
    by (simp add: example_ip_network_def num_addresses_def default_aggr_def)
  have i6: "import_entries example_ip_network [(''2001:db8::/32'', ''65001'')] []
      = Inr [(''65001'', \<lparr>prefixes = {''2001:db8::/32''}, ipcount = 2 ^ 96\<rparr>)]"
    by (simp add: example_ip_network_def num_addresses_def default_aggr_def)
  have r4: "\<not> list_ex refused (pipeline kp af dt [(a, \<lparr>prefixes = {p}, ipcount = n\<rparr>)])" for kp af dt a p n
    by (simp add: pipeline_def)
  show ?thesis
    by (simp add: load_file_def d e example_routeview load_family_committed i4 i6 r4
          del: import_entries.simps)
qed


lemma example_loaded_values:
  "fst (load_file example_env example_candidate empty_db) = None \<and>
   sets (snd (load_file example_env example_candidate empty_db))
        (prefixes_key ''ripe_rrc00'' ''v4'' ''2024-06-02T00:00:00'' ''65000'') = {''10.0.0.0/24''} \<and>
   strs (snd (load_file example_env example_candidate empty_db))
        (ipcount_key ''ripe_rrc00'' ''v4'' ''2024-06-02T00:00:00'' ''65000'') = Some ''256''"
proof -
  have s: "sets (snd (load_file example_env example_candidate empty_db))
        (prefixes_key ''ripe_rrc00'' ''v4'' ''2024-06-02T00:00:00'' ''65000'') = {''10.0.0.0/24''}"
    unfolding example_load_file
    by (simp add: sets_committed empty_db_def pipeline_def prefixes_key_def
          dates_key_def asns_key_def)
  have t: "strs (snd (load_file example_env example_candidate empty_db))
        (ipcount_key ''ripe_rrc00'' ''v4'' ''2024-06-02T00:00:00'' ''65000'') = Some ''256''"
    unfolding example_load_file
    by (simp add: strs_committed assigned_pipeline_last ipcount_key_not_last)
       (simp add: pipeline_def ipcount_key_def str_int_256 strs_committed last_key_def)
  from s t show ?thesis by (simp add: example_load_file)
qed

theorem reload_is_idempotent_witness:
  "fst (load_file example_env example_candidate empty_db) = None \<and>
   sets (snd (load_file example_env example_candidate
                (snd (load_file example_env example_candidate empty_db))))
        (prefixes_key ''ripe_rrc00'' ''v4'' ''2024-06-02T00:00:00'' ''65000'') = {''10.0.0.0/24''} \<and>
   strs (snd (load_file example_env example_candidate
                (snd (load_file example_env example_candidate empty_db))))
        (ipcount_key ''ripe_rrc00'' ''v4'' ''2024-06-02T00:00:00'' ''65000'') = Some ''256''"
proof -
  have k: "key_prefix example_env = ''ripe_rrc00''" "date example_candidate = ''2024-06-02T00:00:00''"
    by (simp_all add: example_env_def example_candidate_def)
  from reload_is_idempotent [of example_env example_candidate empty_db "''v4''" "''65000''"]
  have "sets (snd (load_file example_env example_candidate
                (snd (load_file example_env example_candidate empty_db))))
          (prefixes_key ''ripe_rrc00'' ''v4'' ''2024-06-02T00:00:00'' ''65000'')
        = sets (snd (load_file example_env example_candidate empty_db))
          (prefixes_key ''ripe_rrc00'' ''v4'' ''2024-06-02T00:00:00'' ''65000'')"
    and "strs (snd (load_file example_env example_candidate
                (snd (load_file example_env example_candidate empty_db))))
          (ipcount_key ''ripe_rrc00'' ''v4'' ''2024-06-02T00:00:00'' ''65000'')
        = strs (snd (load_file example_env example_candidate empty_db))
          (ipcount_key ''ripe_rrc00'' ''v4'' ''2024-06-02T00:00:00'' ''65000'')"
    unfolding k by blast+
  with example_loaded_values show ?thesis by (simp only:) 
qed


lemma prefixes_key_not_dates: "prefixes_key kp af dt asn \<noteq> dates_key kp af"
proof
  assume "prefixes_key kp af dt asn = dates_key kp af"
  then have "dt @ ''|'' @ asn = ''dates''"
    by (simp add: prefixes_key_def dates_key_def)
  then have "CHR ''|'' \<in> set ''dates''"
    by (metis in_set_conv_decomp append_Cons)
  then show False by simp
qed

lemma asns_key_not_dates: "asns_key kp af dt \<noteq> dates_key kp af"
proof
  assume "asns_key kp af dt = dates_key kp af"
  then have "rev (asns_key kp af dt) = rev (dates_key kp af)" by simp
  then show False by (simp add: asns_key_def dates_key_def)
qed

lemma added_entries_dates:
  "added (concat (map (\<lambda>(asn, data).
                    [SADD (prefixes_key kp af dt asn) (prefixes data),
                     SET (ipcount_key kp af dt asn) (str_int (ipcount data))]) m)) (dates_key kp af) = {}"
  by (induction m) (auto simp: prefixes_key_not_dates)

lemma added_pipeline_dates: "added (pipeline kp af dt m) (dates_key kp af) = {dt}"
  by (simp add: pipeline_def added_entries_dates asns_key_not_dates)

lemma load_family_dates_exact:
  assumes "load_family env d af entries db = Inr db'"
  shows "sets db' (dates_key (key_prefix env) af) = insert d (sets db (dates_key (key_prefix env) af))"
proof -
  from load_family_sets [OF assms(1)] obtain m where
    "sets db' = (\<lambda>k. sets db k \<union> added (pipeline (key_prefix env) af d m) k)" by blast
  then show ?thesis by (simp add: added_pipeline_dates)
qed

lemma load_families_failed_v6:
  assumes "load_families env d [(''v4'', r4), (''v6'', r6)] db = (Some err, db')"
  shows "sets db' (dates_key (key_prefix env) ''v6'') = sets db (dates_key (key_prefix env) ''v6'')"
proof (cases "load_family env d ''v4'' r4 db")
  case (Inl e)
  with assms show ?thesis by simp
next
  case (Inr db1)
  with assms have "db' = db1"
    by (cases "load_family env d ''v6'' r6 db1") auto
  with load_family_dates_other [OF Inr, of "''v6''"] show ?thesis by simp
qed

lemma load_file_failed_v6:
  assumes "load_file env c db = (Some err, db')"
  shows "sets db' (dates_key (key_prefix env) ''v6'') = sets db (dates_key (key_prefix env) ''v6'')"
proof (cases "routeview (libbgpdump_exists env) (dump c)")
  case (Inl e)
  with assms show ?thesis by (simp add: load_file_def)
next
  case (Inr routes)
  from routeview_shape [OF this] obtain r4 r6 where "routes = [(''v4'', r4), (''v6'', r6)]"
    by blast
  with Inr assms load_families_failed_v6 [of env "date c" r4 r6 db err db'] show ?thesis
    by (simp add: load_file_def)
qed

lemma load_families_invariant:
  assumes "sets db (dates_key (key_prefix env) ''v6'') \<subseteq> sets db (dates_key (key_prefix env) ''v4'')"
  shows "sets (snd (load_families env d [(''v4'', r4), (''v6'', r6)] db)) (dates_key (key_prefix env) ''v6'')
       \<subseteq> sets (snd (load_families env d [(''v4'', r4), (''v6'', r6)] db)) (dates_key (key_prefix env) ''v4'')"
proof (cases "load_family env d ''v4'' r4 db")
  case (Inl e)
  with assms show ?thesis by simp
next
  case (Inr db1)
  note a = load_family_dates_exact [OF Inr] load_family_dates_other [OF Inr, of "''v6''"]
  show ?thesis
  proof (cases "load_family env d ''v6'' r6 db1")
    case (Inl e)
    with Inr assms a show ?thesis by auto
  next
    case r: (Inr db2)
    note b = load_family_dates_exact [OF r] load_family_dates_other [OF r, of "''v4''"]
    from Inr r assms a b show ?thesis by auto
  qed
qed

lemma load_file_invariant:
  assumes "sets db (dates_key (key_prefix env) ''v6'') \<subseteq> sets db (dates_key (key_prefix env) ''v4'')"
  shows "sets (snd (load_file env c db)) (dates_key (key_prefix env) ''v6'')
       \<subseteq> sets (snd (load_file env c db)) (dates_key (key_prefix env) ''v4'')"
proof (cases "routeview (libbgpdump_exists env) (dump c)")
  case (Inl e)
  with assms show ?thesis by (simp add: load_file_def)
next
  case (Inr routes)
  from routeview_shape [OF this] obtain r4 r6 where "routes = [(''v4'', r4), (''v6'', r6)]"
    by blast
  with Inr load_families_invariant [OF assms, of "date c" r4 r6] show ?thesis
    by (simp add: load_file_def)
qed

lemma load_all_invariant:
  "sets db (dates_key (key_prefix env) ''v6'') \<subseteq> sets db (dates_key (key_prefix env) ''v4'') \<Longrightarrow>
   sets (snd (load_all env cs db)) (dates_key (key_prefix env) ''v6'')
     \<subseteq> sets (snd (load_all env cs db)) (dates_key (key_prefix env) ''v4'')"
proof (induction cs arbitrary: db)
  case Nil
  then show ?case by simp
next
  case (Cons c cs)
  from load_file_invariant [OF Cons.prems, of c]
  have i: "sets (snd (load_file env c db)) (dates_key (key_prefix env) ''v6'')
       \<subseteq> sets (snd (load_file env c db)) (dates_key (key_prefix env) ''v4'')" .
  show ?case
  proof (cases "load_file env c db")
    case (Pair e db1)
    with i Cons.IH [of db1] Cons.IH [OF Cons.prems] Cons.prems show ?thesis
      by (cases e) auto
  qed
qed


text \<open>
  C7, amended: load_all has no exception handler. When the load of a candidate fails, the
  pass ends there with the error, whatever candidates follow: they are not processed in
  this pass. The date of the failing file is not marked loaded, so a later pass does not
  skip the file and loads it again; on the unchanged file that load fails in the same way.
  The database is one in which every date loaded for v6 is loaded for v4, which holds of
  the empty database and is kept by load_all (\<open>load_all_invariant\<close>).
\<close>

theorem failure_ends_pass:
  "sets db (dates_key (key_prefix env) ''v6'') \<subseteq> sets db (dates_key (key_prefix env) ''v4'') \<and>
   \<not> too_old (oldest_to_load env) (date c) \<and>
   \<not> already_loaded (key_prefix env) db (date c) \<and>
   load_file env c db = (Some err, db')
   \<longrightarrow>
     load_all env (c # cs) db = (Some err, db') \<and>
     \<not> already_loaded (key_prefix env) db' (date c) \<and>
     sets db' (dates_key (key_prefix env) ''v6'') \<subseteq> sets db' (dates_key (key_prefix env) ''v4'') \<and>
     load_all env (c # cs') db' = (Some err, db')"
proof (intro impI, elim conjE)
  let ?kp = "key_prefix env"
  assume inv: "sets db (dates_key ?kp ''v6'') \<subseteq> sets db (dates_key ?kp ''v4'')"
    and fresh: "\<not> too_old (oldest_to_load env) (date c)"
    and nl: "\<not> already_loaded ?kp db (date c)"
    and fail: "load_file env c db = (Some err, db')"
  from fresh nl fail have pass: "load_all env (c # cs) db = (Some err, db')"
    by simp
  from inv nl have "date c \<notin> sets db (dates_key ?kp ''v6'')"
    by (auto simp: already_loaded_def sismember_def)
  with load_file_failed_v6 [OF fail] have nl': "\<not> already_loaded ?kp db' (date c)"
    by (simp add: already_loaded_def sismember_def)
  from load_file_invariant [OF inv, of c] fail
  have inv': "sets db' (dates_key ?kp ''v6'') \<subseteq> sets db' (dates_key ?kp ''v4'')"
    by simp
  from load_file_twice [of env c db] fail have "load_file env c db' = (Some err, db')"
    by simp
  with fresh nl' have again: "load_all env (c # cs') db' = (Some err, db')"
    by simp
  from pass nl' inv' again
  show "load_all env (c # cs) db = (Some err, db') \<and>
     \<not> already_loaded ?kp db' (date c) \<and>
     sets db' (dates_key ?kp ''v6'') \<subseteq> sets db' (dates_key ?kp ''v4'') \<and>
     load_all env (c # cs') db' = (Some err, db')"
    by blast
qed

lemma corrupt_load_file:
  "load_file example_env corrupt_candidate db = (Some DecodeError, db)"
  by (simp add: load_file_def corrupt_candidate_def routeview_def example_env_def)

lemma example_not_too_old:
  "\<not> too_old (oldest_to_load example_env) (date corrupt_candidate) \<and>
   \<not> too_old (oldest_to_load example_env) (date example_candidate)"
  by (simp add: too_old_def example_env_def corrupt_candidate_def example_candidate_def)

lemma empty_db_not_loaded: "\<not> already_loaded kp empty_db d"
  by (simp add: already_loaded_def sismember_def empty_db_def)

lemma empty_db_invariant:
  "sets empty_db (dates_key kp ''v6'') \<subseteq> sets empty_db (dates_key kp ''v4'')"
  by (simp add: empty_db_def)

lemma example_already_loaded:
  "already_loaded (key_prefix example_env) (snd (load_file example_env example_candidate empty_db))
     (date example_candidate)"
proof -
  have d: "date example_candidate = ''2024-06-02T00:00:00''" "key_prefix example_env = ''ripe_rrc00''"
    by (simp_all add: example_candidate_def example_env_def)
  show ?thesis
    unfolding example_load_file d
    by (simp add: already_loaded_def sismember_def sets_committed pipeline_def)
qed

text \<open>
  C7, as the specification states it, fails: in a pass over a file on which the decoder
  raises and an older file that loads, the pass ends with the error at the first file and
  the second file is not loaded, although a pass over the second file alone loads it.
\<close>

theorem failure_aborts_pass_counterexample:
  "load_all example_env [corrupt_candidate, example_candidate] empty_db = (Some DecodeError, empty_db) \<and>
   \<not> already_loaded (key_prefix example_env)
       (snd (load_all example_env [corrupt_candidate, example_candidate] empty_db))
       (date example_candidate) \<and>
   fst (load_all example_env [example_candidate] empty_db) = None \<and>
   already_loaded (key_prefix example_env)
       (snd (load_all example_env [example_candidate] empty_db)) (date example_candidate)"
proof -
  have 1: "load_all example_env [corrupt_candidate, example_candidate] empty_db
      = (Some DecodeError, empty_db)"
    using example_not_too_old by (simp add: empty_db_not_loaded corrupt_load_file)
  have 2: "load_all example_env [example_candidate] empty_db
      = (None, snd (load_file example_env example_candidate empty_db))"
    using example_not_too_old by (simp add: empty_db_not_loaded example_load_file)
  from 1 2 example_already_loaded show ?thesis
    by (simp add: empty_db_not_loaded)
qed

theorem failure_ends_pass_witness:
  "sets empty_db (dates_key (key_prefix example_env) ''v6'')
     \<subseteq> sets empty_db (dates_key (key_prefix example_env) ''v4'') \<and>
   \<not> too_old (oldest_to_load example_env) (date corrupt_candidate) \<and>
   \<not> already_loaded (key_prefix example_env) empty_db (date corrupt_candidate) \<and>
   load_file example_env corrupt_candidate empty_db = (Some DecodeError, empty_db) \<and>
   load_all example_env (corrupt_candidate # [example_candidate]) empty_db = (Some DecodeError, empty_db) \<and>
   load_all example_env (corrupt_candidate # []) empty_db = (Some DecodeError, empty_db)"
proof -
  note t = failure_ends_pass [of empty_db example_env corrupt_candidate DecodeError empty_db
      "[example_candidate]" "[]"]
  from t empty_db_invariant [of "key_prefix example_env"] example_not_too_old
    empty_db_not_loaded [of "key_prefix example_env" "date corrupt_candidate"]
    corrupt_load_file [of empty_db]
  show ?thesis by blast
qed

end
